theory Spec2Isabelle
  imports Complex_Main "HOL-Library.AList"
begin

section \<open>Inferno Bells: the timed playback scheduler and the bell trigger\<close>

text \<open>
  The development embeds three React components of the repository:
  \<^item> \<^verbatim>\<open>MidiPlayer\<close> (\<^verbatim>\<open>stopPlayback\<close>, \<^verbatim>\<open>playSequence\<close>, the unmount cleanup and
    the play/stop button),
  \<^item> \<^verbatim>\<open>App\<close> (\<^verbatim>\<open>handleMidiProcessed\<close>, \<^verbatim>\<open>handleBellPlay\<close>),
  \<^item> \<^verbatim>\<open>BellsContainer\<close> (the \<^verbatim>\<open>activeNote\<close> effect and \<^verbatim>\<open>handleBellClick\<close>).

  The browser is a record: the millisecond clock read by \<^verbatim>\<open>Date.now()\<close>, the list of
  pending timers created by \<^verbatim>\<open>setTimeout\<close>, and the React state and refs of the three
  components. JavaScript is single threaded, so every handler and every timer callback is
  a function from the record to its successor; a handler runs in zero time and the clock
  moves only between handlers. An exception that no handler catches ends the run: a
  function that can raise returns \<open>Inl\<close> of the error, and the state after it is not
  followed.
\<close>

subsection \<open>JavaScript numbers\<close>

text \<open>
  \<^verbatim>\<open>progress\<close> is a JavaScript number. The finite values are kept exact (rationals,
  rounding is not modelled); the three special values that a division can produce are
  constructors of their own.
\<close>

datatype jsnum = Num rat | PosInf | NegInf | NaN

text \<open>\<^verbatim>\<open>a / b\<close> on two finite numbers.\<close>

definition js_div :: "rat \<Rightarrow> rat \<Rightarrow> jsnum" where
  "js_div a b =
     (if b = 0 then (if a = 0 then NaN else if 0 < a then PosInf else NegInf)
      else Num (a / b))"

text \<open>\<^verbatim>\<open>x * c\<close> for a finite constant \<open>c\<close>.\<close>

fun js_mul :: "jsnum \<Rightarrow> rat \<Rightarrow> jsnum" where
  "js_mul (Num a) c = Num (a * c)"
| "js_mul PosInf c = (if 0 < c then PosInf else if c < 0 then NegInf else NaN)"
| "js_mul NegInf c = (if 0 < c then NegInf else if c < 0 then PosInf else NaN)"
| "js_mul NaN c = NaN"

text \<open>\<^verbatim>\<open>Math.min(x, c)\<close> for a finite constant \<open>c\<close>: a NaN argument gives NaN.\<close>

fun js_min :: "jsnum \<Rightarrow> rat \<Rightarrow> jsnum" where
  "js_min (Num a) c = Num (min a c)"
| "js_min PosInf c = Num c"
| "js_min NegInf c = NegInf"
| "js_min NaN c = NaN"

subsection \<open>Data\<close>

type_synonym note_id = string

text \<open>
  A \<^verbatim>\<open>{note, time}\<close> object of the sequence. \<open>time\<close> is the offset from the start of
  the sequence in milliseconds, a non-negative integer; the note is any string the upload
  delivers.
\<close>

record event =
  ev_note :: note_id
  ev_time :: nat

text \<open>
  The keys of \<^verbatim>\<open>bellPositions\<close>, in the order of the object literal. The fourth name
  has a letter outside ASCII, written here as its two UTF-8 bytes.
\<close>

definition note_Re :: note_id where
  "note_Re = [CHR ''R'', CHR 0xC3, CHR 0xA9]"

definition bell_notes :: "note_id list" where
  "bell_notes = [''Sol'', ''Fa'', ''Mi'', note_Re, ''Do'']"

text \<open>
  \<^verbatim>\<open>audioRefs.current\<close> is a plain object literal filled with one \<^verbatim>\<open>Audio\<close> per bell.
  A lookup \<^verbatim>\<open>audioRefs.current[note]\<close> therefore has three outcomes: the clip of a bell,
  \<^verbatim>\<open>undefined\<close>, or, for the property names every plain object inherits from
  \<^verbatim>\<open>Object.prototype\<close>, an inherited value that is truthy and has no \<^verbatim>\<open>play\<close> method.
\<close>

definition object_prototype_keys :: "string list" where
  "object_prototype_keys =
     [''constructor'', ''__defineGetter__'', ''__defineSetter__'', ''hasOwnProperty'',
      ''__lookupGetter__'', ''__lookupSetter__'', ''isPrototypeOf'',
      ''propertyIsEnumerable'', ''toString'', ''valueOf'', ''__proto__'',
      ''toLocaleString'']"

datatype audio_ref = Clip | Inherited | Undefined

definition audioRefs :: "note_id \<Rightarrow> audio_ref" where
  "audioRefs n =
     (if n \<in> set bell_notes then Clip
      else if n \<in> set object_prototype_keys then Inherited
      else Undefined)"

text \<open>
  The closures handed to \<^verbatim>\<open>setTimeout\<close>, with the variables each one captures:
  \<^item> \<open>NoteTimer note index len startTime totalDuration\<close> is the arrow function of
    \<^verbatim>\<open>playSequence\<close> (\<open>len\<close> is \<^verbatim>\<open>sequence.length\<close>),
  \<^item> \<open>StopTimer\<close> is \<^verbatim>\<open>stopPlayback\<close>, armed with 500 ms when the last event fires,
  \<^item> \<open>FlagTimer note\<close> is the arrow function of \<^verbatim>\<open>handleBellClick\<close>, armed with 200 ms.
\<close>

datatype callback =
    NoteTimer note_id nat nat nat nat
  | StopTimer
  | FlagTimer note_id

record timer =
  tid :: nat
  due :: nat
  cb :: callback

fun is_note :: "callback \<Rightarrow> bool" where
  "is_note (NoteTimer n i len st td) = True"
| "is_note StopTimer = False"
| "is_note (FlagTimer n) = False"

datatype error = TypeError

text \<open>
  The state. \<open>bellPlays\<close> and \<open>audioPlays\<close> are traces: the arguments of the calls of
  \<^verbatim>\<open>onBellPlay\<close> made by the player, and the notes whose clip was restarted by
  \<^verbatim>\<open>handleBellClick\<close>, both in the order of the calls.
\<close>

record world =
  clock :: nat
  timers :: "timer list"
  next_id :: nat
  sequence :: "event list option"
  activeNote :: "note_id option"
  playerRef :: "nat list option"
  isPlaying :: bool
  progress :: jsnum
  playingNotes :: "(note_id \<times> bool) list"
  editMode :: bool
  selectedBell :: "note_id option"
  bellPlays :: "note_id list"
  audioPlays :: "note_id list"

definition init :: world where
  "init = \<lparr>clock = 0, timers = [], next_id = 0, sequence = None, activeNote = None,
           playerRef = None, isPlaying = False, progress = Num 0, playingNotes = [],
           editMode = False, selectedBell = None, bellPlays = [], audioPlays = []\<rparr>"

subsection \<open>Timers\<close>

text \<open>\<^verbatim>\<open>setTimeout(f, delay)\<close>; the handle it returns is \<open>next_id\<close> of the state before.\<close>

definition setTimeout :: "callback \<Rightarrow> nat \<Rightarrow> world \<Rightarrow> world" where
  "setTimeout f delay w =
     w\<lparr>timers := timers w @ [\<lparr>tid = next_id w, due = clock w + delay, cb = f\<rparr>],
       next_id := next_id w + 1\<rparr>"

text \<open>\<^verbatim>\<open>ids.forEach(timeout => clearTimeout(timeout))\<close>.\<close>

definition clearTimeouts :: "nat list \<Rightarrow> world \<Rightarrow> world" where
  "clearTimeouts ids w = w\<lparr>timers := filter (\<lambda>t. tid t \<notin> set ids) (timers w)\<rparr>"

subsection \<open>MidiPlayer\<close>

definition stopPlayback :: "world \<Rightarrow> world" where
  "stopPlayback w =
     (let w1 = (case playerRef w of
                  Some ids \<Rightarrow> (clearTimeouts ids w)\<lparr>playerRef := None\<rparr>
                | None \<Rightarrow> w)
      in w1\<lparr>isPlaying := False, progress := Num 0\<rparr>)"

text \<open>
  The body of \<^verbatim>\<open>sequence.forEach\<close>: arm the timer of one event and push its handle on
  \<^verbatim>\<open>playerRef.current\<close>. The ref holds the array assigned just before the loop, and
  nothing else runs during the loop, so the push never meets \<^verbatim>\<open>null\<close>.
\<close>

fun arm :: "event list \<Rightarrow> nat \<Rightarrow> nat \<Rightarrow> nat \<Rightarrow> nat \<Rightarrow> world \<Rightarrow> world" where
  "arm [] index len startTime totalDuration w = w"
| "arm (e # es) index len startTime totalDuration w =
     (let timeout = next_id w;
          w1 = setTimeout (NoteTimer (ev_note e) index len startTime totalDuration) (ev_time e) w;
          w2 = w1\<lparr>playerRef := map_option (\<lambda>ids. ids @ [timeout]) (playerRef w1)\<rparr>
      in arm es (index + 1) len startTime totalDuration w2)"

text \<open>\<^verbatim>\<open>playSequence\<close>, with the \<^verbatim>\<open>sequence\<close> prop its closure holds (\<open>None\<close> is null).\<close>

definition playSequence :: "event list option \<Rightarrow> world \<Rightarrow> world" where
  "playSequence sq w =
     (case sq of
        None \<Rightarrow> w
      | Some [] \<Rightarrow> w
      | Some evs \<Rightarrow>
          (let w1 = stopPlayback w;
               w2 = w1\<lparr>isPlaying := True\<rparr>;
               startTime = clock w2;
               totalDuration = ev_time (last evs);
               w3 = w2\<lparr>playerRef := Some []\<rparr>
           in arm evs 0 (length evs) startTime totalDuration w3))"

text \<open>The cleanup returned by the mount effect: \<^verbatim>\<open>() => stopPlayback()\<close>.\<close>

definition unmount :: "world \<Rightarrow> world" where
  "unmount w = stopPlayback w"

text \<open>
  The button: \<^verbatim>\<open>onClick={isPlaying ? stopPlayback : playSequence}\<close>. \<^verbatim>\<open>App\<close> renders
  the player only when its \<^verbatim>\<open>sequence\<close> state is truthy (an empty array is).
\<close>

definition pressButton :: "world \<Rightarrow> world" where
  "pressButton w =
     (case sequence w of
        None \<Rightarrow> w
      | Some s \<Rightarrow> if isPlaying w then stopPlayback w else playSequence (Some s) w)"

subsection \<open>BellsContainer\<close>

text \<open>
  The second argument of \<^verbatim>\<open>handleBellClick\<close> is the click event, absent when the
  \<^verbatim>\<open>activeNote\<close> effect makes the call; the flag of a click is
  \<^verbatim>\<open>e.target.classList.contains('resize-handle')\<close>.
\<close>

datatype click = Click bool

definition handleBellClick :: "note_id \<Rightarrow> click option \<Rightarrow> world \<Rightarrow> error + world" where
  "handleBellClick n e w =
     (if editMode w then
        (case e of
           None \<Rightarrow> Inl TypeError
         | Some (Click on_handle) \<Rightarrow>
             if on_handle then Inr w else Inr (w\<lparr>selectedBell := Some n\<rparr>))
      else
        (case audioRefs n of
           Inherited \<Rightarrow> Inl TypeError
         | a \<Rightarrow>
             (let w1 = (if a = Clip then w\<lparr>audioPlays := audioPlays w @ [n]\<rparr> else w);
                  w2 = w1\<lparr>playingNotes := AList.update n True (playingNotes w1)\<rparr>
              in Inr (setTimeout (FlagTimer n) 200 w2))))"

text \<open>
  The effect \<^verbatim>\<open>useEffect(() => { if (activeNote) handleBellClick(activeNote) }, [activeNote])\<close>.
  React runs it after a render in which \<^verbatim>\<open>activeNote\<close> differs from the value of the
  render before; \<open>prev\<close> is that earlier value. An empty string is falsy.
\<close>

definition activeNote_effect :: "note_id option \<Rightarrow> world \<Rightarrow> error + world" where
  "activeNote_effect prev w =
     (if activeNote w = prev then Inr w
      else (case activeNote w of
              None \<Rightarrow> Inr w
            | Some n \<Rightarrow> if n = [] then Inr w else handleBellClick n None w))"

subsection \<open>App\<close>

text \<open>\<^verbatim>\<open>handleBellPlay\<close>, the \<^verbatim>\<open>onBellPlay\<close> prop of the player.\<close>

definition handleBellPlay :: "note_id \<Rightarrow> world \<Rightarrow> world" where
  "handleBellPlay n w = w\<lparr>activeNote := Some n, bellPlays := bellPlays w @ [n]\<rparr>"

subsection \<open>Timer callbacks and the event loop\<close>

text \<open>The progress value a note timer writes: \<^verbatim>\<open>Math.min((elapsed / totalDuration) * 100, 100)\<close>.\<close>

definition note_progress :: "nat \<Rightarrow> nat \<Rightarrow> nat \<Rightarrow> jsnum" where
  "note_progress startTime totalDuration now =
     (let elapsed = int now - int startTime;
          percentage = js_mul (js_div (of_int elapsed) (of_nat totalDuration)) 100
      in js_min percentage 100)"

text \<open>
  The body of a timer callback, up to its return. The state updates of one callback are
  rendered, and the effects of that render run, before the next callback starts;
  \<open>fire\<close> below does that. This is the schedule in which every call of \<^verbatim>\<open>onBellPlay\<close>
  gets a render of its own; a host that renders once for two callbacks run back to back
  shows the effect only the last value of \<^verbatim>\<open>activeNote\<close>.
\<close>

fun callback_body :: "callback \<Rightarrow> world \<Rightarrow> world" where
  "callback_body (NoteTimer n index len startTime totalDuration) w =
     (let w1 = handleBellPlay n w;
          w2 = w1\<lparr>progress := note_progress startTime totalDuration (clock w1)\<rparr>
      in if int index = int len - 1 then setTimeout StopTimer 500 w2 else w2)"
| "callback_body StopTimer w = stopPlayback w"
| "callback_body (FlagTimer n) w = w\<lparr>playingNotes := AList.update n False (playingNotes w)\<rparr>"

text \<open>
  The browser runs the pending timer with handle \<open>i\<close>. A timer never runs before it is
  due; asking for a timer that is not pending, or not yet due, leaves the state as it is.
\<close>

definition fire :: "nat \<Rightarrow> world \<Rightarrow> error + world" where
  "fire i w =
     (case find (\<lambda>t. tid t = i) (timers w) of
        None \<Rightarrow> Inr w
      | Some t \<Rightarrow>
          if clock w < due t then Inr w
          else (let prev = activeNote w;
                    w1 = w\<lparr>timers := filter (\<lambda>t. tid t \<noteq> i) (timers w)\<rparr>
                in activeNote_effect prev (callback_body (cb t) w1)))"

text \<open>
  What can happen to the page: time passes, a timer fires, an upload delivers a sequence
  (\<^verbatim>\<open>handleMidiProcessed\<close>), the play/stop button is pressed, one of the five bells is
  clicked, edit mode is toggled. A run stops at the first uncaught error.
\<close>

datatype action =
    Tick nat
  | Fire nat
  | Upload "event list"
  | PressButton
  | ClickBell note_id bool
  | ToggleEdit

fun step :: "action \<Rightarrow> world \<Rightarrow> error + world" where
  "step (Tick d) w = Inr (w\<lparr>clock := clock w + d\<rparr>)"
| "step (Fire i) w = fire i w"
| "step (Upload s) w = Inr (w\<lparr>sequence := Some s\<rparr>)"
| "step PressButton w = Inr (pressButton w)"
| "step (ClickBell n h) w =
     (if n \<in> set bell_notes then handleBellClick n (Some (Click h)) w else Inr w)"
| "step ToggleEdit w = Inr (w\<lparr>editMode := \<not> editMode w\<rparr>)"

fun run :: "action list \<Rightarrow> world \<Rightarrow> error + world" where
  "run [] w = Inr w"
| "run (a # as) w = (case step a w of Inl e \<Rightarrow> Inl e | Inr w' \<Rightarrow> run as w')"

fun is_press :: "action \<Rightarrow> bool" where
  "is_press PressButton = True"
| "is_press a = False"

subsection \<open>Invariant: the event timers are the ones the ref holds\<close>

text \<open>
  \<open>tracked\<close>: the handle of every pending event timer is in \<^verbatim>\<open>playerRef.current\<close>.
  \<open>no_note_timers\<close>: no event timer is pending. (The timers of the events are the ones
  \<^verbatim>\<open>playSequence\<close> pushes on the ref; the completion timer and the flag timers are not.)
\<close>

definition tracked :: "world \<Rightarrow> bool" where
  "tracked w =
     list_all (\<lambda>t. is_note (cb t) \<longrightarrow>
                 (case playerRef w of None \<Rightarrow> False | Some ids \<Rightarrow> tid t \<in> set ids))
              (timers w)"

definition no_note_timers :: "world \<Rightarrow> bool" where
  "no_note_timers w = list_all (\<lambda>t. \<not> is_note (cb t)) (timers w)"

subsection \<open>Invariant: what an event timer remembers\<close>

text \<open>
  \<open>timed\<close>: the start time captured by a pending event timer is not in the future, and
  the timer of the last index is due exactly \<^verbatim>\<open>totalDuration\<close> after that start.
\<close>

fun note_ok :: "nat \<Rightarrow> nat \<Rightarrow> callback \<Rightarrow> bool" where
  "note_ok now d (NoteTimer n k len st td) =
     (st \<le> now \<and> (int k = int len - 1 \<longrightarrow> d = st + td))"
| "note_ok now d StopTimer = True"
| "note_ok now d (FlagTimer n) = True"

definition timed :: "world \<Rightarrow> bool" where
  "timed w = list_all (\<lambda>t. note_ok (clock w) (due t) (cb t)) (timers w)"

subsection \<open>Runs and sequences used as examples\<close>

text \<open>The sequence of the specification's example: Do at 0 ms, Mi at 500 ms, Sol at 1000 ms.\<close>

definition seq_do_mi_sol :: "event list" where
  "seq_do_mi_sol =
     [\<lparr>ev_note = ''Do'', ev_time = 0\<rparr>, \<lparr>ev_note = ''Mi'', ev_time = 500\<rparr>,
      \<lparr>ev_note = ''Sol'', ev_time = 1000\<rparr>]"

text \<open>
  Further sequences: one event at 0 ms; two events at 0 ms; the same note twice; Mi at
  0 ms, then Sol at 1000 ms.
\<close>

definition seq_do0 :: "event list" where
  "seq_do0 = [\<lparr>ev_note = ''Do'', ev_time = 0\<rparr>]"

definition seq_do0_mi0 :: "event list" where
  "seq_do0_mi0 = [\<lparr>ev_note = ''Do'', ev_time = 0\<rparr>, \<lparr>ev_note = ''Mi'', ev_time = 0\<rparr>]"

definition seq_do_do :: "event list" where
  "seq_do_do = [\<lparr>ev_note = ''Do'', ev_time = 0\<rparr>, \<lparr>ev_note = ''Do'', ev_time = 500\<rparr>]"

definition seq_mi_sol :: "event list" where
  "seq_mi_sol = [\<lparr>ev_note = ''Mi'', ev_time = 0\<rparr>, \<lparr>ev_note = ''Sol'', ev_time = 1000\<rparr>]"

text \<open>A sequence whose note is none of the five bells.\<close>

definition seq_la :: "event list" where
  "seq_la = [\<lparr>ev_note = ''La'', ev_time = 0\<rparr>]"

section \<open>Properties\<close>

subsection \<open>The invariant holds in every reachable state\<close>

lemma tracked_init: "tracked init"
  by (simp add: tracked_def init_def)

lemma no_note_tracked: "no_note_timers w \<Longrightarrow> tracked w"
  by (simp add: tracked_def no_note_timers_def list_all_iff)

lemma stopPlayback_no_note: "tracked w \<Longrightarrow> no_note_timers (stopPlayback w)"
  by (auto simp: tracked_def no_note_timers_def stopPlayback_def clearTimeouts_def
        list_all_iff split: option.splits)

lemma stopPlayback_fields:
  "isPlaying (stopPlayback w) = False" "progress (stopPlayback w) = Num 0"
  "playerRef (stopPlayback w) = None" "clock (stopPlayback w) = clock w"
  "bellPlays (stopPlayback w) = bellPlays w" "audioPlays (stopPlayback w) = audioPlays w"
  "sequence (stopPlayback w) = sequence w" "next_id (stopPlayback w) = next_id w"
  by (simp_all add: stopPlayback_def clearTimeouts_def split: option.splits)

lemma stopPlayback_idem: "stopPlayback (stopPlayback w) = stopPlayback w"
  by (simp add: stopPlayback_def clearTimeouts_def split: option.splits)

lemma stopPlayback_idle:
  "playerRef w = None \<Longrightarrow> \<not> isPlaying w \<Longrightarrow> progress w = Num 0 \<Longrightarrow> stopPlayback w = w"
  by (simp add: stopPlayback_def)

lemma arm_tracked:
  "tracked w \<Longrightarrow> playerRef w \<noteq> None \<Longrightarrow> tracked (arm es i len st td w)"
proof (induction es arbitrary: i w)
  case Nil
  then show ?case by simp
next
  case (Cons e es)
  let ?w2 = "(setTimeout (NoteTimer (ev_note e) i len st td) (ev_time e) w)
              \<lparr>playerRef := map_option (\<lambda>ids. ids @ [next_id w])
                 (playerRef (setTimeout (NoteTimer (ev_note e) i len st td) (ev_time e) w))\<rparr>"
  from Cons.prems have "tracked ?w2"
    by (auto simp: tracked_def setTimeout_def list_all_iff split: option.splits)
  moreover from Cons.prems have "playerRef ?w2 \<noteq> None"
    by (simp add: setTimeout_def)
  ultimately have "tracked (arm es (i + 1) len st td ?w2)"
    by (rule Cons.IH)
  then show ?case by (simp add: Let_def)
qed

lemma arm_bellPlays: "bellPlays (arm es i len st td w) = bellPlays w"
  by (induction es arbitrary: i w) (simp_all add: Let_def setTimeout_def)

lemma playSequence_tracked: "tracked w \<Longrightarrow> tracked (playSequence sq w)"
proof (cases sq)
  case None
  assume "tracked w"
  with None show ?thesis by (simp add: playSequence_def)
next
  case (Some evs)
  assume tr: "tracked w"
  show ?thesis
  proof (cases evs)
    case Nil
    with Some tr show ?thesis by (simp add: playSequence_def)
  next
    case (Cons e es)
    let ?w3 = "(stopPlayback w)\<lparr>isPlaying := True, playerRef := Some []\<rparr>"
    from tr have "no_note_timers (stopPlayback w)" by (rule stopPlayback_no_note)
    then have "tracked ?w3"
      by (simp add: tracked_def no_note_timers_def list_all_iff)
    then have "tracked (arm evs 0 (length evs) (clock ?w3) (ev_time (last evs)) ?w3)"
      by (rule arm_tracked) simp
    with Some Cons show ?thesis
      by (simp add: playSequence_def Let_def)
  qed
qed

lemma handleBellClick_tracked:
  "handleBellClick n e w = Inr w' \<Longrightarrow> tracked w \<Longrightarrow> tracked w'"
  by (auto simp: handleBellClick_def tracked_def setTimeout_def Let_def list_all_iff
        split: if_splits option.splits click.splits audio_ref.splits)

lemma handleBellClick_bellPlays:
  "handleBellClick n e w = Inr w' \<Longrightarrow> bellPlays w' = bellPlays w"
  by (auto simp: handleBellClick_def setTimeout_def Let_def
        split: if_splits option.splits click.splits audio_ref.splits)

lemma handleBellClick_no_note:
  "handleBellClick n e w = Inr w' \<Longrightarrow> no_note_timers w \<Longrightarrow> no_note_timers w'"
  by (auto simp: handleBellClick_def no_note_timers_def setTimeout_def Let_def
        split: if_splits option.splits click.splits audio_ref.splits)

lemma activeNote_effect_tracked:
  "activeNote_effect p w = Inr w' \<Longrightarrow> tracked w \<Longrightarrow> tracked w'"
  by (auto simp: activeNote_effect_def split: if_splits option.splits
        dest: handleBellClick_tracked)

lemma activeNote_effect_bellPlays:
  "activeNote_effect p w = Inr w' \<Longrightarrow> bellPlays w' = bellPlays w"
  by (auto simp: activeNote_effect_def split: if_splits option.splits
        dest: handleBellClick_bellPlays)

lemma activeNote_effect_no_note:
  "activeNote_effect p w = Inr w' \<Longrightarrow> no_note_timers w \<Longrightarrow> no_note_timers w'"
  by (auto simp: activeNote_effect_def split: if_splits option.splits
        dest: handleBellClick_no_note)

lemma remove_tracked: "tracked w \<Longrightarrow> tracked (w\<lparr>timers := filter P (timers w)\<rparr>)"
  by (simp add: tracked_def list_all_iff)

lemma remove_no_note: "no_note_timers w \<Longrightarrow> no_note_timers (w\<lparr>timers := filter P (timers w)\<rparr>)"
  by (simp add: no_note_timers_def list_all_iff)

lemma callback_body_tracked: "tracked w \<Longrightarrow> tracked (callback_body c w)"
proof (cases c)
  case (NoteTimer n i len st td)
  assume "tracked w"
  with NoteTimer show ?thesis
    by (auto simp: tracked_def handleBellPlay_def setTimeout_def Let_def list_all_iff)
next
  case StopTimer
  assume "tracked w"
  then have "no_note_timers (stopPlayback w)" by (rule stopPlayback_no_note)
  with StopTimer show ?thesis by (simp add: no_note_tracked)
next
  case (FlagTimer n)
  assume "tracked w"
  with FlagTimer show ?thesis by (simp add: tracked_def)
qed

lemma fire_tracked: "fire i w = Inr w' \<Longrightarrow> tracked w \<Longrightarrow> tracked w'"
  by (auto simp: fire_def Let_def split: option.splits if_splits
        dest!: activeNote_effect_tracked intro!: callback_body_tracked remove_tracked)

lemmas eval_defs = init_def pressButton_def playSequence_def stopPlayback_def unmount_def
  setTimeout_def clearTimeouts_def fire_def activeNote_effect_def handleBellPlay_def
  handleBellClick_def audioRefs_def bell_notes_def object_prototype_keys_def note_Re_def
  note_progress_def js_div_def Let_def tracked_def no_note_timers_def

lemma step_tracked: "step a w = Inr w' \<Longrightarrow> tracked w \<Longrightarrow> tracked w'"
proof (cases a)
  case (Fire i)
  assume "step a w = Inr w'" "tracked w"
  with Fire show ?thesis by (auto dest: fire_tracked)
next
  case PressButton
  assume "step a w = Inr w'" "tracked w"
  with PressButton show ?thesis
    using stopPlayback_no_note [of w] playSequence_tracked [of w]
    by (auto simp: pressButton_def no_note_tracked split: option.splits if_splits)
next
  case (ClickBell n h)
  assume "step a w = Inr w'" "tracked w"
  with ClickBell show ?thesis
    by (auto split: if_splits dest: handleBellClick_tracked)
qed (auto simp: tracked_def)

lemma run_tracked: "run as w = Inr w' \<Longrightarrow> tracked w \<Longrightarrow> tracked w'"
proof (induction as arbitrary: w)
  case Nil
  then show ?case by simp
next
  case (Cons a as)
  then show ?case
    by (auto split: sum.splits dest: step_tracked)
qed

lemma reachable_tracked: "run as init = Inr w \<Longrightarrow> tracked w"
  using run_tracked tracked_init by blast

lemma callback_body_quiet:
  "\<not> is_note c \<Longrightarrow> no_note_timers w \<Longrightarrow>
     no_note_timers (callback_body c w) \<and> bellPlays (callback_body c w) = bellPlays w
     \<and> audioPlays (callback_body c w) = audioPlays w
     \<and> activeNote (callback_body c w) = activeNote w"
  by (cases c)
     (auto simp: no_note_timers_def stopPlayback_def clearTimeouts_def list_all_iff
        split: option.splits)

lemma find_no_note:
  "no_note_timers w \<Longrightarrow> find P (timers w) = Some t \<Longrightarrow> \<not> is_note (cb t)"
  by (auto simp: no_note_timers_def list_all_iff find_Some_iff)

lemma fire_quiet:
  assumes "no_note_timers w" and "fire i w = Inr w'"
  shows "no_note_timers w' \<and> bellPlays w' = bellPlays w \<and> audioPlays w' = audioPlays w"
proof (cases "find (\<lambda>t. tid t = i) (timers w)")
  case None
  with assms show ?thesis by (simp add: fire_def)
next
  case (Some t)
  show ?thesis
  proof (cases "clock w < due t")
    case True
    with Some assms show ?thesis by (simp add: fire_def)
  next
    case False
    let ?w1 = "w\<lparr>timers := filter (\<lambda>t. tid t \<noteq> i) (timers w)\<rparr>"
    from assms(1) Some have nn: "\<not> is_note (cb t)" by (rule find_no_note)
    from assms(1) have "no_note_timers ?w1" by (rule remove_no_note)
    with nn have q: "no_note_timers (callback_body (cb t) ?w1)"
      "bellPlays (callback_body (cb t) ?w1) = bellPlays w"
      "audioPlays (callback_body (cb t) ?w1) = audioPlays w"
      "activeNote (callback_body (cb t) ?w1) = activeNote w"
      using callback_body_quiet [of "cb t" ?w1] by simp_all
    from Some False assms(2)
    have "activeNote_effect (activeNote w) (callback_body (cb t) ?w1) = Inr w'"
      by (simp add: fire_def Let_def)
    with q(4) have "w' = callback_body (cb t) ?w1"
      by (simp add: activeNote_effect_def)
    with q show ?thesis by simp
  qed
qed

lemma step_quiet:
  assumes "\<not> is_press a" and "no_note_timers w" and "step a w = Inr w'"
  shows "no_note_timers w' \<and> bellPlays w' = bellPlays w"
proof (cases a)
  case (Fire i)
  with assms show ?thesis using fire_quiet [of w i w'] by simp
next
  case (ClickBell n h)
  with assms show ?thesis
    by (auto split: if_splits dest: handleBellClick_no_note handleBellClick_bellPlays)
qed (use assms in \<open>auto simp: no_note_timers_def\<close>)

lemma run_quiet:
  "list_all (\<lambda>a. \<not> is_press a) es \<Longrightarrow> no_note_timers w \<Longrightarrow> run es w = Inr w' \<Longrightarrow>
     no_note_timers w' \<and> bellPlays w' = bellPlays w"
proof (induction es arbitrary: w)
  case Nil
  then show ?case by simp
next
  case (Cons a es)
  from Cons.prems obtain v where v: "step a w = Inr v" "run es v = Inr w'"
    by (auto split: sum.splits)
  from Cons.prems v(1) have "no_note_timers v \<and> bellPlays v = bellPlays w"
    using step_quiet [of a w v] by simp
  moreover from this Cons.prems v(2) have "no_note_timers w' \<and> bellPlays w' = bellPlays v"
    using Cons.IH [of v] by simp
  ultimately show ?case by simp
qed

lemma stopPlayback_clears_ref:
  "playerRef w = Some ids \<Longrightarrow> t \<in> set (timers (stopPlayback w)) \<Longrightarrow> tid t \<notin> set ids"
  by (simp add: stopPlayback_def clearTimeouts_def)

lemma stopPlayback_cancels_event_timers:
  assumes "run as init = Inr w"
  shows "no_note_timers (stopPlayback w)
       \<and> (\<forall>es w'. list_all (\<lambda>a. \<not> is_press a) es \<longrightarrow> run es (stopPlayback w) = Inr w' \<longrightarrow>
             bellPlays w' = bellPlays w)"
proof -
  from assms have "tracked w" by (rule reachable_tracked)
  then have nn: "no_note_timers (stopPlayback w)" by (rule stopPlayback_no_note)
  have "\<forall>es w'. list_all (\<lambda>a. \<not> is_press a) es \<longrightarrow> run es (stopPlayback w) = Inr w' \<longrightarrow>
          bellPlays w' = bellPlays w"
    using run_quiet [OF _ nn] by (simp add: stopPlayback_fields)
  with nn show ?thesis by simp
qed

subsection \<open>Firing a timer that is due\<close>

lemma handleBellClick_timers:
  "handleBellClick n e w = Inr w' \<Longrightarrow> set (timers w) \<subseteq> set (timers w')"
  by (auto simp: handleBellClick_def setTimeout_def Let_def
        split: if_splits option.splits click.splits audio_ref.splits)

lemma activeNote_effect_timers:
  "activeNote_effect p w = Inr w' \<Longrightarrow> set (timers w) \<subseteq> set (timers w')"
  by (auto simp: activeNote_effect_def split: if_splits option.splits
        dest: handleBellClick_timers)

lemma fire_due:
  "find (\<lambda>t. tid t = i) (timers w) = Some t \<Longrightarrow> due t \<le> clock w \<Longrightarrow>
     fire i w = activeNote_effect (activeNote w)
                  (callback_body (cb t) (w\<lparr>timers := filter (\<lambda>t. tid t \<noteq> i) (timers w)\<rparr>))"
  by (simp add: fire_def Let_def)

lemma fire_early:
  "find (\<lambda>t. tid t = i) (timers w) = Some t \<Longrightarrow> clock w < due t \<Longrightarrow> fire i w = Inr w"
  by (simp add: fire_def)

lemma fire_StopTimer:
  assumes "find (\<lambda>t. tid t = i) (timers w) = Some t" and "cb t = StopTimer"
    and "due t \<le> clock w"
  shows "fire i w = Inr (stopPlayback (w\<lparr>timers := filter (\<lambda>t. tid t \<noteq> i) (timers w)\<rparr>))"
proof -
  let ?w1 = "w\<lparr>timers := filter (\<lambda>t. tid t \<noteq> i) (timers w)\<rparr>"
  have "activeNote (stopPlayback ?w1) = activeNote w"
    by (simp add: stopPlayback_def clearTimeouts_def split: option.splits)
  with assms show ?thesis
    by (simp add: fire_due activeNote_effect_def)
qed

lemma fire_FlagTimer:
  assumes "find (\<lambda>t. tid t = i) (timers w) = Some t" and "cb t = FlagTimer n"
    and "due t \<le> clock w"
  shows "fire i w = Inr (w\<lparr>timers := filter (\<lambda>t. tid t \<noteq> i) (timers w),
                          playingNotes := AList.update n False (playingNotes w)\<rparr>)"
  using assms by (simp add: fire_due activeNote_effect_def)

subsection \<open>Stopping\<close>

text \<open>
  \<^verbatim>\<open>stopPlayback\<close> clears the timers whose handles are on the ref, and in every state the
  page can reach these are all the pending event timers
  (\<open>stopPlayback_cancels_event_timers\<close>, \<open>stopPlayback_clears_ref\<close>); it is idempotent
  and changes nothing in the idle state (\<open>stopPlayback_idem\<close>, \<open>stopPlayback_idle\<close>).
  The completion timer is another matter: its handle is never stored.
\<close>

text \<open>
  Claim C4 (\<^verbatim>\<open>stop()\<close> cancels every pending timer of the current session). Play Do, Mi,
  Sol to the last event: Sol fires at 1000 ms and arms the completion timer (handle 5,
  due at 1500 ms). At 1100 ms the session is live (\<^verbatim>\<open>isPlaying\<close> is true) and the button
  is pressed, which runs \<^verbatim>\<open>stopPlayback\<close>. Afterwards \<^verbatim>\<open>isPlaying\<close> is false, \<^verbatim>\<open>progress\<close>
  is 0 and the ref is null, but the completion timer of the stopped session is still
  pending; at 1500 ms it is due and runs.
\<close>

theorem stopPlayback_leaves_completion_timer:
  "\<exists>w. run [Upload seq_do_mi_sol, PressButton, Fire 0, Tick 500, Fire 1, Tick 500, Fire 2,
             Tick 100] init = Inr w
      \<and> isPlaying w \<and> clock w = 1100
      \<and> step PressButton w = Inr (stopPlayback w)
      \<and> \<not> isPlaying (stopPlayback w) \<and> progress (stopPlayback w) = Num 0
      \<and> playerRef (stopPlayback w) = None
      \<and> find (\<lambda>t. tid t = 5) (timers (stopPlayback w))
            = Some \<lparr>tid = 5, due = 1500, cb = StopTimer\<rparr>
      \<and> map_sum id (\<lambda>v. (clock v, map tid (timers v)))
            (run [Tick 399, Fire 5] (stopPlayback w)) = Inr (1499, [3, 4, 5, 6])
      \<and> map_sum id (\<lambda>v. (clock v, map tid (timers v)))
            (run [Tick 400, Fire 5] (stopPlayback w)) = Inr (1500, [3, 4, 6])"
  by (simp add: seq_do_mi_sol_def eval_defs)

subsection \<open>Unmounting the player\<close>

text \<open>
  Claim C10 (unmounting cancels every pending timer of the session). The cleanup of the
  mount effect is \<^verbatim>\<open>stopPlayback\<close>, so it clears the event timers and no more. Play Mi,
  Sol to the last event: Sol fires at 1000 ms and arms the completion timer (handle 3,
  due at 1500 ms). The player is unmounted at 1100 ms, while the session is live. The
  completion timer is still pending after the cleanup, and at 1500 ms it is due and runs
  \<^verbatim>\<open>stopPlayback\<close> of the component that is gone.
\<close>

theorem unmount_leaves_completion_timer:
  "\<exists>w. run [Upload seq_mi_sol, PressButton, Fire 0, Tick 1000, Fire 1, Tick 100] init = Inr w
      \<and> isPlaying w \<and> clock w = 1100
      \<and> unmount w = stopPlayback w
      \<and> find (\<lambda>t. tid t = 3) (timers (unmount w))
            = Some \<lparr>tid = 3, due = 1500, cb = StopTimer\<rparr>
      \<and> map_sum id (\<lambda>v. (clock v, map tid (timers v)))
            (run [Tick 399, Fire 3] (unmount w)) = Inr (1499, [2, 3, 4])
      \<and> map_sum id (\<lambda>v. (clock v, map tid (timers v)))
            (run [Tick 400, Fire 3] (unmount w)) = Inr (1500, [2, 4])"
  by (simp add: seq_mi_sol_def eval_defs)

subsection \<open>Playing nothing\<close>

text \<open>
  Claim C9. \<^verbatim>\<open>playSequence\<close> with a null or an empty sequence returns the state it was
  given: no timer is armed, no field changes, and there is no error to raise.
\<close>

theorem playSequence_empty_noop:
  "playSequence None w = w \<and> playSequence (Some []) w = w"
  by (simp add: playSequence_def)

subsection \<open>Progress\<close>

text \<open>
  With a positive \<^verbatim>\<open>totalDuration\<close> the value a note timer writes is a finite number
  between 0 and 100, it grows with the clock, and it is 100 from \<^verbatim>\<open>totalDuration\<close>
  milliseconds after the start on. With \<^verbatim>\<open>totalDuration = 0\<close> the division is by zero.
\<close>

lemma note_progress_value:
  "0 < td \<Longrightarrow> st \<le> now \<Longrightarrow>
     note_progress st td now = Num (min (of_nat (now - st) / of_nat td * 100) 100)"
  by (simp add: note_progress_def js_div_def Let_def of_nat_diff)

lemma note_progress_range:
  assumes "0 < td" and "st \<le> now"
  shows "\<exists>p. note_progress st td now = Num p \<and> 0 \<le> p \<and> p \<le> 100"
  using assms by (simp add: note_progress_value)

lemma note_progress_mono:
  assumes "0 < td" and "st \<le> a" and "a \<le> b"
  shows "\<exists>p q. note_progress st td a = Num p \<and> note_progress st td b = Num q \<and> p \<le> q"
proof -
  from assms have "(of_nat (a - st) :: rat) \<le> of_nat (b - st)"
    by simp
  with assms(1) have "(of_nat (a - st) :: rat) / of_nat td * 100 \<le> of_nat (b - st) / of_nat td * 100"
    by (simp add: divide_right_mono)
  then have "min ((of_nat (a - st) :: rat) / of_nat td * 100) 100
               \<le> min (of_nat (b - st) / of_nat td * 100) 100"
    by (simp add: min_le_iff_disj)
  with assms show ?thesis by (simp add: note_progress_value)
qed

lemma note_progress_final:
  assumes "0 < td" and "st + td \<le> now"
  shows "note_progress st td now = Num 100"
proof -
  from assms have "(of_nat td :: rat) \<le> of_nat (now - st)"
    by (simp add: of_nat_le_iff)
  with assms(1) have "(1::rat) \<le> of_nat (now - st) / of_nat td"
    by (simp add: le_divide_eq)
  then have "(1::rat) * 100 \<le> of_nat (now - st) / of_nat td * 100"
    by (rule mult_right_mono) simp
  then have "(100::rat) \<le> of_nat (now - st) / of_nat td * 100"
    by (simp only: mult_1)
  with assms show ?thesis by (simp add: note_progress_value min_def)
qed

lemma note_progress_zero_duration:
  "note_progress st 0 st = NaN" "st < now \<Longrightarrow> note_progress st 0 now = Num 100"
  by (simp_all add: note_progress_def js_div_def Let_def)

subsection \<open>What play arms, and what an event timer does\<close>

text \<open>
  \<^verbatim>\<open>playSequence\<close> leaves exactly one event timer pending for each event, in the order of
  the sequence, due \<open>ev_time\<close> after the clock value of the call. An event timer that
  fires passes its note to \<^verbatim>\<open>onBellPlay\<close> once; in every reachable state, if
  \<^verbatim>\<open>totalDuration\<close> is positive, the progress it writes is between 0 and 100, and is 100
  for the last index. The clock never runs backwards.
\<close>

lemma note_ok_later: "note_ok now d c \<Longrightarrow> note_ok (now + x) d c"
  by (cases c) auto

lemma arm_fields:
  "clock (arm es i len st td w) = clock w"
  "isPlaying (arm es i len st td w) = isPlaying w"
  "progress (arm es i len st td w) = progress w"
  by (induction es arbitrary: i w) (simp_all add: Let_def setTimeout_def)

lemma arm_timers:
  "timers (arm es i len st td w) =
     timers w @ map (\<lambda>(k, e). \<lparr>tid = next_id w + k, due = clock w + ev_time e,
                               cb = NoteTimer (ev_note e) (i + k) len st td\<rparr>)
                    (enumerate 0 es)"
proof (induction es arbitrary: i w)
  case Nil
  show ?case by simp
next
  case (Cons e es)
  let ?w2 = "(setTimeout (NoteTimer (ev_note e) i len st td) (ev_time e) w)
              \<lparr>playerRef := map_option (\<lambda>ids. ids @ [next_id w])
                 (playerRef (setTimeout (NoteTimer (ev_note e) i len st td) (ev_time e) w))\<rparr>"
  have "timers (arm (e # es) i len st td w) = timers (arm es (i + 1) len st td ?w2)"
    by (simp add: Let_def)
  also have "\<dots> = timers ?w2 @ map (\<lambda>(k, e). \<lparr>tid = next_id ?w2 + k, due = clock ?w2 + ev_time e,
                               cb = NoteTimer (ev_note e) (i + 1 + k) len st td\<rparr>)
                    (enumerate 0 es)"
    by (rule Cons.IH)
  also have "\<dots> = timers w @ map (\<lambda>(k, e). \<lparr>tid = next_id w + k, due = clock w + ev_time e,
                               cb = NoteTimer (ev_note e) (i + k) len st td\<rparr>)
                    (enumerate 0 (e # es))"
    by (simp add: setTimeout_def enumerate_Suc_eq [of 0] comp_def case_prod_beta)
  finally show ?case .
qed

lemma playSequence_arms_one_timer_per_event:
  assumes "tracked w" and "evs \<noteq> []"
  shows "filter (\<lambda>t. is_note (cb t)) (timers (playSequence (Some evs) w)) =
           map (\<lambda>(k, e). \<lparr>tid = next_id w + k, due = clock w + ev_time e,
                            cb = NoteTimer (ev_note e) k (length evs) (clock w) (ev_time (last evs))\<rparr>)
               (enumerate 0 evs)"
proof -
  let ?w3 = "(stopPlayback w)\<lparr>isPlaying := True, playerRef := Some []\<rparr>"
  from assms(1) have "no_note_timers (stopPlayback w)" by (rule stopPlayback_no_note)
  then have "filter (\<lambda>t. is_note (cb t)) (timers ?w3) = []"
    by (simp add: no_note_timers_def list_all_iff filter_empty_conv)
  moreover from assms(2)
  have "playSequence (Some evs) w = arm evs 0 (length evs) (clock w) (ev_time (last evs)) ?w3"
    by (cases evs) (simp_all add: playSequence_def Let_def stopPlayback_fields)
  ultimately show ?thesis
    by (simp add: arm_timers stopPlayback_fields filter_map comp_def case_prod_beta)
qed

lemma timed_init: "timed init"
  by (simp add: timed_def init_def)

lemma timed_later: "timed w \<Longrightarrow> timed (w\<lparr>clock := clock w + d\<rparr>)"
  by (auto simp: timed_def list_all_iff intro: note_ok_later)

lemma timed_remove: "timed w \<Longrightarrow> timed (w\<lparr>timers := filter P (timers w)\<rparr>)"
  by (simp add: timed_def list_all_iff)

lemma timed_stopPlayback: "timed w \<Longrightarrow> timed (stopPlayback w)"
  by (auto simp: timed_def stopPlayback_def clearTimeouts_def list_all_iff
        split: option.splits)

lemma timed_arm:
  assumes "timed w" and "st = clock w" and "len = i + length es"
    and "es \<noteq> [] \<longrightarrow> td = ev_time (last es)"
  shows "timed (arm es i len st td w)"
proof -
  have "st \<le> clock w \<and> (int (i + k) = int len - 1 \<longrightarrow> clock w + ev_time e = st + td)"
    if "(k, e) \<in> set (enumerate 0 es)" for k e
  proof -
    from that have k: "k < length es" "e = es ! k"
      by (auto simp: in_set_enumerate_eq)
    then have ne: "es \<noteq> []" by auto
    have "e = last es" if "int (i + k) = int len - 1"
    proof -
      from that assms(3) k(1) have "k = length es - 1" by simp
      with k(2) ne show ?thesis by (simp add: last_conv_nth)
    qed
    with assms(2,4) ne show ?thesis by auto
  qed
  with assms(1) show ?thesis
    by (auto simp: timed_def arm_timers arm_fields list_all_iff)
qed

lemma timed_playSequence: "timed w \<Longrightarrow> timed (playSequence sq w)"
proof (cases sq)
  case None
  assume "timed w"
  with None show ?thesis by (simp add: playSequence_def)
next
  case (Some evs)
  assume tm: "timed w"
  show ?thesis
  proof (cases "evs = []")
    case True
    with Some tm show ?thesis by (simp add: playSequence_def)
  next
    case False
    let ?w3 = "(stopPlayback w)\<lparr>isPlaying := True, playerRef := Some []\<rparr>"
    from tm have "timed (stopPlayback w)" by (rule timed_stopPlayback)
    then have "timed ?w3" by (simp add: timed_def)
    then have "timed (arm evs 0 (length evs) (clock w) (ev_time (last evs)) ?w3)"
      by (rule timed_arm) (simp_all add: stopPlayback_fields)
    moreover from False
    have "playSequence (Some evs) w = arm evs 0 (length evs) (clock w) (ev_time (last evs)) ?w3"
      by (cases evs) (simp_all add: playSequence_def Let_def stopPlayback_fields)
    ultimately show ?thesis using Some by simp
  qed
qed

lemma timed_handleBellClick: "handleBellClick n e w = Inr w' \<Longrightarrow> timed w \<Longrightarrow> timed w'"
  by (auto simp: handleBellClick_def timed_def setTimeout_def Let_def list_all_iff
        split: if_splits option.splits click.splits audio_ref.splits)

lemma timed_activeNote_effect: "activeNote_effect p w = Inr w' \<Longrightarrow> timed w \<Longrightarrow> timed w'"
  by (auto simp: activeNote_effect_def split: if_splits option.splits
        dest: timed_handleBellClick)

lemma timed_callback_body: "timed w \<Longrightarrow> timed (callback_body c w)"
proof (cases c)
  case (NoteTimer n i len st td)
  assume "timed w"
  with NoteTimer show ?thesis
    by (auto simp: timed_def handleBellPlay_def setTimeout_def Let_def list_all_iff)
next
  case StopTimer
  assume "timed w"
  with StopTimer show ?thesis by (simp add: timed_stopPlayback)
next
  case (FlagTimer n)
  assume "timed w"
  with FlagTimer show ?thesis by (simp add: timed_def)
qed

lemma timed_fire: "fire i w = Inr w' \<Longrightarrow> timed w \<Longrightarrow> timed w'"
  by (auto simp: fire_def Let_def split: option.splits if_splits
        dest!: timed_activeNote_effect intro!: timed_callback_body timed_remove)

lemma timed_step: "step a w = Inr w' \<Longrightarrow> timed w \<Longrightarrow> timed w'"
proof (cases a)
  case (Tick d)
  assume "step a w = Inr w'" "timed w"
  with Tick show ?thesis by (auto dest: timed_later)
next
  case (Fire i)
  assume "step a w = Inr w'" "timed w"
  with Fire show ?thesis by (auto dest: timed_fire)
next
  case PressButton
  assume "step a w = Inr w'" "timed w"
  with PressButton show ?thesis
    using timed_stopPlayback [of w] timed_playSequence [of w]
    by (auto simp: pressButton_def split: option.splits if_splits)
next
  case (ClickBell n h)
  assume "step a w = Inr w'" "timed w"
  with ClickBell show ?thesis
    by (auto split: if_splits dest: timed_handleBellClick)
qed (auto simp: timed_def)

lemma timed_run: "run as w = Inr w' \<Longrightarrow> timed w \<Longrightarrow> timed w'"
proof (induction as arbitrary: w)
  case Nil
  then show ?case by simp
next
  case (Cons a as)
  then show ?case
    by (auto split: sum.splits dest: timed_step)
qed

lemma handleBellClick_player:
  "handleBellClick n e w = Inr w' \<Longrightarrow> progress w' = progress w \<and> isPlaying w' = isPlaying w"
  by (auto simp: handleBellClick_def setTimeout_def Let_def
        split: if_splits option.splits click.splits audio_ref.splits)

lemma activeNote_effect_player:
  "activeNote_effect p w = Inr w' \<Longrightarrow> progress w' = progress w \<and> isPlaying w' = isPlaying w"
  by (auto simp: activeNote_effect_def split: if_splits option.splits
        dest: handleBellClick_player)

lemma fire_NoteTimer:
  assumes "find (\<lambda>t. tid t = i) (timers w) = Some t" and "cb t = NoteTimer n k len st td"
    and "due t \<le> clock w" and "fire i w = Inr w'"
  shows "bellPlays w' = bellPlays w @ [n] \<and> progress w' = note_progress st td (clock w)"
proof -
  let ?w1 = "w\<lparr>timers := filter (\<lambda>t. tid t \<noteq> i) (timers w)\<rparr>"
  from assms(1,3,4) have e: "activeNote_effect (activeNote w) (callback_body (cb t) ?w1) = Inr w'"
    by (simp add: fire_due)
  from assms(2) have "bellPlays (callback_body (cb t) ?w1) = bellPlays w @ [n]"
    "progress (callback_body (cb t) ?w1) = note_progress st td (clock w)"
    by (simp_all add: handleBellPlay_def setTimeout_def Let_def)
  with activeNote_effect_bellPlays [OF e] activeNote_effect_player [OF e]
  show ?thesis by simp
qed

lemma find_timed:
  assumes "timed w" and "find P (timers w) = Some t" and "cb t = NoteTimer n k len st td"
  shows "st \<le> clock w \<and> (int k = int len - 1 \<longrightarrow> due t = st + td)"
proof -
  from assms(2) have "t \<in> set (timers w)"
    by (auto simp: find_Some_iff)
  with assms(1) have "note_ok (clock w) (due t) (cb t)"
    by (simp add: timed_def list_all_iff)
  with assms(3) show ?thesis by simp
qed

lemma note_timer_progress:
  assumes "run as init = Inr w"
    and "find (\<lambda>t. tid t = i) (timers w) = Some t" and "cb t = NoteTimer n k len st td"
    and "due t \<le> clock w" and "fire i w = Inr w'" and "0 < td"
  shows "\<exists>p. progress w' = Num p \<and> 0 \<le> p \<and> p \<le> 100 \<and> (int k = int len - 1 \<longrightarrow> p = 100)"
proof -
  from assms(1) have "timed w" using timed_run timed_init by blast
  with assms(2,3) have st: "st \<le> clock w" and l: "int k = int len - 1 \<longrightarrow> due t = st + td"
    using find_timed by blast+
  from assms(2-5) have p: "progress w' = note_progress st td (clock w)"
    using fire_NoteTimer by blast
  from assms(6) st obtain q where q: "note_progress st td (clock w) = Num q" "0 \<le> q" "q \<le> 100"
    using note_progress_range by blast
  have "q = 100" if "int k = int len - 1"
  proof -
    from that l assms(4) have "st + td \<le> clock w" by simp
    with assms(6) have "note_progress st td (clock w) = Num 100" by (rule note_progress_final)
    with q(1) show ?thesis by simp
  qed
  with p q show ?thesis by simp
qed

lemma callback_body_clock: "clock (callback_body c w) = clock w"
  by (cases c) (simp_all add: handleBellPlay_def setTimeout_def Let_def stopPlayback_fields)

lemma handleBellClick_clock: "handleBellClick n e w = Inr w' \<Longrightarrow> clock w' = clock w"
  by (auto simp: handleBellClick_def setTimeout_def Let_def
        split: if_splits option.splits click.splits audio_ref.splits)

lemma activeNote_effect_clock: "activeNote_effect p w = Inr w' \<Longrightarrow> clock w' = clock w"
  by (auto simp: activeNote_effect_def split: if_splits option.splits
        dest: handleBellClick_clock)

lemma fire_clock: "fire i w = Inr w' \<Longrightarrow> clock w' = clock w"
  by (auto simp: fire_def Let_def callback_body_clock split: option.splits if_splits
        dest!: activeNote_effect_clock)

lemma playSequence_clock: "clock (playSequence sq w) = clock w"
  by (simp add: playSequence_def Let_def arm_fields stopPlayback_fields setTimeout_def
        split: option.splits list.splits)

lemma clock_step: "step a w = Inr w' \<Longrightarrow> clock w \<le> clock w'"
proof (cases a)
  case (Fire i)
  assume "step a w = Inr w'"
  with Fire show ?thesis by (auto dest: fire_clock)
next
  case PressButton
  assume "step a w = Inr w'"
  with PressButton show ?thesis
    by (auto simp: pressButton_def playSequence_clock stopPlayback_fields
          split: option.splits if_splits)
next
  case (ClickBell n h)
  assume "step a w = Inr w'"
  with ClickBell show ?thesis
    by (auto split: if_splits dest: handleBellClick_clock)
qed auto

lemma clock_run: "run as w = Inr w' \<Longrightarrow> clock w \<le> clock w'"
proof (induction as arbitrary: w)
  case Nil
  then show ?case by simp
next
  case (Cons a as)
  from Cons.prems obtain v where v: "step a w = Inr v" "run as v = Inr w'"
    by (auto split: sum.splits)
  from v(1) have "clock w \<le> clock v" by (rule clock_step)
  moreover from v(2) have "clock v \<le> clock w'" by (rule Cons.IH)
  ultimately show ?case by simp
qed

text \<open>
  Claim C1 (progress stays in [0,100]; a single event at time 0 reports 100 at once).
  The player divides by \<^verbatim>\<open>totalDuration\<close> without a test for zero. For the sequence
  with one event at 0 ms, when the timer runs in the millisecond in which play was
  pressed the quotient is \<^verbatim>\<open>0 / 0\<close>, \<^verbatim>\<open>Math.min(NaN, 100)\<close> is NaN, and NaN is what
  \<^verbatim>\<open>setProgress\<close> receives; one millisecond later the same timer writes 100.
\<close>

theorem progress_zero_duration_is_NaN:
  "map_sum id progress (run [Upload seq_do0, PressButton, Fire 0] init) = Inr NaN
   \<and> map_sum id progress (run [Upload seq_do0, PressButton, Tick 1, Fire 0] init) = Inr (Num 100)"
  by (simp add: seq_do0_def eval_defs)

text \<open>
  Claim C8 (progress is non-decreasing and is exactly 100 when the final event fires).
  Two events, both at 0 ms, both fired in the millisecond in which play was pressed:
  each of them is passed to \<^verbatim>\<open>onBellPlay\<close>, and after the final one \<^verbatim>\<open>progress\<close> is NaN.
\<close>

theorem final_event_progress_is_NaN:
  "map_sum id (\<lambda>w. (bellPlays w, progress w))
     (run [Upload seq_do0_mi0, PressButton, Fire 0, Fire 1] init) = Inr ([''Do'', ''Mi''], NaN)"
  by (simp add: seq_do0_mi0_def eval_defs)

subsection \<open>One ring for each event\<close>

text \<open>
  Claim C2 (one trigger for each event, also when a note repeats). The player calls
  \<^verbatim>\<open>onBellPlay\<close> once for each event, but the bell rings through the \<^verbatim>\<open>activeNote\<close>
  state of \<^verbatim>\<open>App\<close> and an effect that runs only when that state changes. For Do at 0 ms
  and Do again at 500 ms: \<^verbatim>\<open>onBellPlay\<close> is called twice, the clip is restarted once, and
  the flag of Do, cleared 200 ms after the first ring, is not set again by the second
  event. At the end the only pending timer is the completion timer.
\<close>

theorem repeated_note_rings_once:
  "map_sum id (\<lambda>w. (bellPlays w, audioPlays w, playingNotes w, map cb (timers w)))
     (run [Upload seq_do_do, PressButton, Fire 0, Tick 200, Fire 2, Tick 300, Fire 1] init)
   = Inr ([''Do'', ''Do''], [''Do''], [(''Do'', False)], [StopTimer])"
  by (simp add: seq_do_do_def eval_defs)

subsection \<open>One session at a time\<close>

text \<open>
  Claim C3 (a new session invalidates every pending timer of the one before). The
  completion timer armed by the last event is not pushed on \<^verbatim>\<open>playerRef.current\<close>, so
  \<^verbatim>\<open>stopPlayback\<close> does not clear it. Play the one-event sequence Do; its event fires and
  arms the completion timer (handle 1, due at 500 ms). At 100 ms \<^verbatim>\<open>playSequence\<close> starts
  Mi at 0 ms, Sol at 1000 ms (handles 3 and 4). Mi fires; at 500 ms the completion timer
  of the first session fires and \<^verbatim>\<open>stopPlayback\<close> clears the timer of Sol: the second
  session ends with \<^verbatim>\<open>isPlaying\<close> false and Sol is never passed to \<^verbatim>\<open>onBellPlay\<close>.
  The second conjunct is the same course of events through the button (stop, a new
  upload, play).
\<close>

theorem stale_completion_timer_stops_next_session:
  "(\<exists>w. run [Upload seq_do0, PressButton, Fire 0, Tick 100] init = Inr w
        \<and> isPlaying w \<and> map cb (timers w) = [StopTimer, FlagTimer ''Do'']
        \<and> map_sum id (\<lambda>v. (bellPlays v, isPlaying v, no_note_timers v))
            (run [Fire 3, Tick 400, Fire 1, Tick 600, Fire 4]
               (playSequence (Some seq_mi_sol) w))
          = Inr ([''Do'', ''Mi''], False, True))
   \<and> map_sum id (\<lambda>v. (bellPlays v, isPlaying v, no_note_timers v))
        (run [Upload seq_do0, PressButton, Fire 0, Tick 100, PressButton, Upload seq_mi_sol,
              PressButton, Fire 3, Tick 400, Fire 1, Tick 600, Fire 4] init)
      = Inr ([''Do'', ''Mi''], False, True)"
  by (simp add: seq_do0_def seq_mi_sol_def eval_defs)

subsection \<open>Completion\<close>

text \<open>
  Claim C7. When the timer of the last event of a sequence fires (index
  \<^verbatim>\<open>sequence.length - 1\<close>), a timer running \<^verbatim>\<open>stopPlayback\<close> is pending afterwards, due
  500 ms after the clock value at which the event fired. In any later state in which that
  timer is still pending, it does nothing before those 500 ms have passed, and once they
  have, firing it leaves \<^verbatim>\<open>isPlaying\<close> false, \<^verbatim>\<open>progress\<close> 0, the ref null and no event
  timer pending.
\<close>

theorem last_event_arms_teardown:
  assumes "find (\<lambda>t. tid t = i) (timers w) = Some t"
    and "cb t = NoteTimer n k len st td" and "int k = int len - 1"
    and "due t \<le> clock w"
    and "fire i w = Inr w'"
  shows "\<exists>g. g \<in> set (timers w') \<and> tid g = next_id w \<and> cb g = StopTimer
           \<and> due g = clock w + 500
           \<and> (\<forall>v. find (\<lambda>t. tid t = tid g) (timers v) = Some g \<longrightarrow>
                 (clock v < clock w + 500 \<longrightarrow> fire (tid g) v = Inr v)
               \<and> (clock w + 500 \<le> clock v \<longrightarrow>
                    (\<exists>v'. fire (tid g) v = Inr v' \<and> \<not> isPlaying v' \<and> progress v' = Num 0
                          \<and> playerRef v' = None \<and> (tracked v \<longrightarrow> no_note_timers v'))))"
proof -
  let ?g = "\<lparr>tid = next_id w, due = clock w + 500, cb = StopTimer\<rparr>"
  let ?w1 = "w\<lparr>timers := filter (\<lambda>t. tid t \<noteq> i) (timers w)\<rparr>"
  from assms(1,4,5) have "activeNote_effect (activeNote w) (callback_body (cb t) ?w1) = Inr w'"
    by (simp add: fire_due)
  then have "set (timers (callback_body (cb t) ?w1)) \<subseteq> set (timers w')"
    by (rule activeNote_effect_timers)
  moreover from assms(2,3) have "?g \<in> set (timers (callback_body (cb t) ?w1))"
    by (simp add: handleBellPlay_def setTimeout_def Let_def)
  ultimately have mem: "?g \<in> set (timers w')" by blast
  have later: "(clock v < clock w + 500 \<longrightarrow> fire (tid ?g) v = Inr v)
      \<and> (clock w + 500 \<le> clock v \<longrightarrow>
           (\<exists>v'. fire (tid ?g) v = Inr v' \<and> \<not> isPlaying v' \<and> progress v' = Num 0
                 \<and> playerRef v' = None \<and> (tracked v \<longrightarrow> no_note_timers v')))"
    if f: "find (\<lambda>t. tid t = tid ?g) (timers v) = Some ?g" for v
  proof (intro conjI impI)
    assume "clock v < clock w + 500"
    with f show "fire (tid ?g) v = Inr v" by (simp add: fire_early)
  next
    assume d: "clock w + 500 \<le> clock v"
    let ?v1 = "v\<lparr>timers := filter (\<lambda>t. tid t \<noteq> tid ?g) (timers v)\<rparr>"
    from f d have "fire (tid ?g) v = Inr (stopPlayback ?v1)"
      by (simp add: fire_StopTimer)
    moreover have "tracked v \<longrightarrow> no_note_timers (stopPlayback ?v1)"
      using remove_tracked [of v] stopPlayback_no_note [of ?v1] by blast
    ultimately show "\<exists>v'. fire (tid ?g) v = Inr v' \<and> \<not> isPlaying v' \<and> progress v' = Num 0
                 \<and> playerRef v' = None \<and> (tracked v \<longrightarrow> no_note_timers v')"
      by (simp add: stopPlayback_fields)
  qed
  show ?thesis
    apply (rule exI [of _ ?g])
    using mem later by simp
qed

theorem last_event_arms_teardown_witness:
  "\<exists>w t w' v v'.
      run [Upload seq_do_mi_sol, PressButton, Fire 0, Tick 500, Fire 1, Tick 500] init = Inr w
    \<and> find (\<lambda>t. tid t = 2) (timers w) = Some t
    \<and> cb t = NoteTimer ''Sol'' 2 3 0 1000 \<and> int 2 = int 3 - 1 \<and> due t \<le> clock w
    \<and> fire 2 w = Inr w'
    \<and> \<lparr>tid = 5, due = 1500, cb = StopTimer\<rparr> \<in> set (timers w')
    \<and> isPlaying w' \<and> progress w' = Num 100
    \<and> find (\<lambda>t. tid t = 5) (timers w') = Some \<lparr>tid = 5, due = 1500, cb = StopTimer\<rparr>
    \<and> clock w' < 1500 \<and> fire 5 w' = Inr w'
    \<and> run [Tick 500] w' = Inr v
    \<and> find (\<lambda>t. tid t = 5) (timers v) = Some \<lparr>tid = 5, due = 1500, cb = StopTimer\<rparr>
    \<and> 1500 \<le> clock v \<and> tracked v
    \<and> fire 5 v = Inr v' \<and> \<not> isPlaying v' \<and> progress v' = Num 0 \<and> playerRef v' = None
    \<and> no_note_timers v'"
proof -
  let ?G = "\<lparr>tid = 5, due = 1500, cb = StopTimer\<rparr>"
  have "\<exists>w t w' v.
      run [Upload seq_do_mi_sol, PressButton, Fire 0, Tick 500, Fire 1, Tick 500] init = Inr w
    \<and> find (\<lambda>t. tid t = 2) (timers w) = Some t
    \<and> cb t = NoteTimer ''Sol'' 2 3 0 1000 \<and> due t \<le> clock w
    \<and> clock w = 1000 \<and> next_id w = 5
    \<and> fire 2 w = Inr w'
    \<and> isPlaying w' \<and> progress w' = Num 100
    \<and> find (\<lambda>t. tid t = 5) (timers w') = Some ?G
    \<and> clock w' < 1500
    \<and> run [Tick 500] w' = Inr v
    \<and> find (\<lambda>t. tid t = 5) (timers v) = Some ?G
    \<and> 1500 \<le> clock v \<and> tracked v"
    by (simp add: seq_do_mi_sol_def eval_defs)
  then obtain w t w' v where
    r: "run [Upload seq_do_mi_sol, PressButton, Fire 0, Tick 500, Fire 1, Tick 500] init = Inr w"
    and h: "find (\<lambda>t. tid t = 2) (timers w) = Some t" "cb t = NoteTimer ''Sol'' 2 3 0 1000"
      "due t \<le> clock w" "fire 2 w = Inr w'"
    and c: "clock w = 1000" "next_id w = 5"
    and f: "isPlaying w'" "progress w' = Num 100"
      "find (\<lambda>t. tid t = 5) (timers w') = Some ?G" "clock w' < 1500"
    and rv: "run [Tick 500] w' = Inr v"
    and fv: "find (\<lambda>t. tid t = 5) (timers v) = Some ?G" "1500 \<le> clock v" "tracked v"
    by blast
  have k: "int 2 = int 3 - 1" by simp
  from last_event_arms_teardown [OF h(1) h(2) k h(3) h(4)]
  obtain g where g: "g \<in> set (timers w')" "tid g = next_id w" "cb g = StopTimer"
      "due g = clock w + 500"
    and L: "\<And>v. find (\<lambda>t. tid t = tid g) (timers v) = Some g \<Longrightarrow>
                 (clock v < clock w + 500 \<longrightarrow> fire (tid g) v = Inr v)
               \<and> (clock w + 500 \<le> clock v \<longrightarrow>
                    (\<exists>v'. fire (tid g) v = Inr v' \<and> \<not> isPlaying v' \<and> progress v' = Num 0
                          \<and> playerRef v' = None \<and> (tracked v \<longrightarrow> no_note_timers v')))"
    by blast
  have eq: "g = ?G" by (rule timer.equality) (use g c in simp_all)
  from L [of w'] f(3,4) c eq have e1: "fire 5 w' = Inr w'" by simp
  from L [of v] fv c eq obtain v' where
    e2: "fire 5 v = Inr v'" "\<not> isPlaying v'" "progress v' = Num 0" "playerRef v' = None"
      "no_note_timers v'"
    by auto
  from g(1) eq have "?G \<in> set (timers w')" by simp
  with r h k f rv fv e1 e2 show ?thesis by blast
qed

subsection \<open>Ringing a bell\<close>

text \<open>
  Outside edit mode, and for a note whose lookup in \<^verbatim>\<open>audioRefs.current\<close> gives a clip or
  nothing, \<^verbatim>\<open>handleBellClick\<close> returns without an error; a flag timer that is due sets
  the flag of its note to false and touches no other flag.
\<close>

lemma handleBellClick_ring:
  assumes "\<not> editMode w" and "audioRefs n \<noteq> Inherited"
  shows "handleBellClick n e w =
           Inr ((if audioRefs n = Clip then w\<lparr>audioPlays := audioPlays w @ [n]\<rparr> else w)
                  \<lparr>playingNotes := AList.update n True (playingNotes w),
                   timers := timers w @ [\<lparr>tid = next_id w, due = clock w + 200, cb = FlagTimer n\<rparr>],
                   next_id := next_id w + 1\<rparr>)"
  using assms
  by (cases "audioRefs n") (simp_all add: handleBellClick_def setTimeout_def Let_def)

lemma flag_timer_clears:
  assumes "find (\<lambda>t. tid t = tid g) (timers v) = Some g" and "cb g = FlagTimer n"
  shows "(clock v < due g \<longrightarrow> fire (tid g) v = Inr v)
       \<and> (due g \<le> clock v \<longrightarrow>
            (\<exists>v'. fire (tid g) v = Inr v' \<and> map_of (playingNotes v') n = Some False
                  \<and> audioPlays v' = audioPlays v
                  \<and> (\<forall>b. b \<noteq> n \<longrightarrow> map_of (playingNotes v') b = map_of (playingNotes v) b)))"
  using assms by (simp add: fire_early fire_FlagTimer update_conv')

text \<open>
  Claim C5 as it is written (a second trigger within 200 ms keeps the flag true until
  200 ms after the second call) fails: Do is rung at 0 ms and at 100 ms; at 200 ms the
  timer of the first ring fires and the flag of Do is false, while the timer of the
  second ring, due at 300 ms, is still pending.
\<close>

theorem retrigger_flag_cleared_early:
  "map_sum id clock
     (run [ClickBell ''Do'' False, Tick 100, ClickBell ''Do'' False, Tick 100, Fire 0] init)
     = Inr 200
   \<and> map_sum id playingNotes
     (run [ClickBell ''Do'' False, Tick 100, ClickBell ''Do'' False, Tick 100, Fire 0] init)
     = Inr [(''Do'', False)]
   \<and> map_sum id timers
     (run [ClickBell ''Do'' False, Tick 100, ClickBell ''Do'' False, Tick 100, Fire 0] init)
     = Inr [\<lparr>tid = 1, due = 300, cb = FlagTimer ''Do''\<rparr>]
   \<and> map_sum id audioPlays
     (run [ClickBell ''Do'' False, Tick 100, ClickBell ''Do'' False, Tick 100, Fire 0] init)
     = Inr [''Do'', ''Do'']"
  by (simp add: eval_defs)

text \<open>
  Claim C5, amended. Outside edit mode, \<^verbatim>\<open>handleBellClick\<close> sets the flag of the note to
  true and arms one timer, due 200 ms later. A flag timer of the note does nothing before
  it is due, and when it fires it sets the flag to false, whatever other rings of the same
  note have happened since it was armed.
\<close>

theorem trigger_sets_flag_for_200ms:
  assumes "\<not> editMode w" and "audioRefs n \<noteq> Inherited"
  shows "\<exists>w'. handleBellClick n e w = Inr w'
        \<and> map_of (playingNotes w') n = Some True
        \<and> timers w' = timers w @ [\<lparr>tid = next_id w, due = clock w + 200, cb = FlagTimer n\<rparr>]
        \<and> (\<forall>v g. find (\<lambda>t. tid t = tid g) (timers v) = Some g \<and> cb g = FlagTimer n \<longrightarrow>
              (clock v < due g \<longrightarrow> fire (tid g) v = Inr v)
            \<and> (due g \<le> clock v \<longrightarrow>
                 (\<exists>v'. fire (tid g) v = Inr v' \<and> map_of (playingNotes v') n = Some False)))"
proof -
  have "\<forall>v g. find (\<lambda>t. tid t = tid g) (timers v) = Some g \<and> cb g = FlagTimer n \<longrightarrow>
              (clock v < due g \<longrightarrow> fire (tid g) v = Inr v)
            \<and> (due g \<le> clock v \<longrightarrow>
                 (\<exists>v'. fire (tid g) v = Inr v' \<and> map_of (playingNotes v') n = Some False))"
    using flag_timer_clears by blast
  with assms show ?thesis
    by (simp add: handleBellClick_ring update_conv')
qed

theorem trigger_sets_flag_for_200ms_witness:
  "\<exists>w' v v'. \<not> editMode init \<and> audioRefs ''Do'' \<noteq> Inherited
      \<and> handleBellClick ''Do'' None init = Inr w'
      \<and> map_of (playingNotes w') ''Do'' = Some True
      \<and> timers w' = [\<lparr>tid = 0, due = 200, cb = FlagTimer ''Do''\<rparr>]
      \<and> find (\<lambda>t. tid t = 0) (timers w') = Some \<lparr>tid = 0, due = 200, cb = FlagTimer ''Do''\<rparr>
      \<and> clock w' < 200 \<and> fire 0 w' = Inr w'
      \<and> run [Tick 100, ClickBell ''Do'' False, Tick 100] w' = Inr v
      \<and> find (\<lambda>t. tid t = 0) (timers v) = Some \<lparr>tid = 0, due = 200, cb = FlagTimer ''Do''\<rparr>
      \<and> 200 \<le> clock v \<and> map_of (playingNotes v) ''Do'' = Some True
      \<and> fire 0 v = Inr v' \<and> map_of (playingNotes v') ''Do'' = Some False"
proof -
  let ?G = "\<lparr>tid = 0, due = 200, cb = FlagTimer ''Do''\<rparr>"
  have a: "\<not> editMode init" "audioRefs ''Do'' \<noteq> Inherited"
    by (simp_all add: init_def audioRefs_def bell_notes_def)
  from trigger_sets_flag_for_200ms [OF a, of None]
  obtain w' where w': "handleBellClick ''Do'' None init = Inr w'"
      "map_of (playingNotes w') ''Do'' = Some True"
      "timers w' = timers init @ [\<lparr>tid = next_id init, due = clock init + 200, cb = FlagTimer ''Do''\<rparr>]"
    and L: "\<And>v g. find (\<lambda>t. tid t = tid g) (timers v) = Some g \<and> cb g = FlagTimer ''Do'' \<Longrightarrow>
              (clock v < due g \<longrightarrow> fire (tid g) v = Inr v)
            \<and> (due g \<le> clock v \<longrightarrow>
                 (\<exists>v'. fire (tid g) v = Inr v' \<and> map_of (playingNotes v') ''Do'' = Some False))"
    by blast
  from w'(3) have t: "timers w' = [?G]" by (simp add: init_def)
  from w'(1) have "\<exists>v. clock w' < 200
      \<and> run [Tick 100, ClickBell ''Do'' False, Tick 100] w' = Inr v
      \<and> find (\<lambda>t. tid t = 0) (timers v) = Some ?G
      \<and> 200 \<le> clock v \<and> map_of (playingNotes v) ''Do'' = Some True"
    by (auto simp: eval_defs)
  then obtain v where v: "clock w' < 200"
      "run [Tick 100, ClickBell ''Do'' False, Tick 100] w' = Inr v"
      "find (\<lambda>t. tid t = 0) (timers v) = Some ?G"
      "200 \<le> clock v" "map_of (playingNotes v) ''Do'' = Some True"
    by blast
  from t have fw: "find (\<lambda>t. tid t = 0) (timers w') = Some ?G" by simp
  from L [where v = w' and g = ?G] fw v(1) have e1: "fire 0 w' = Inr w'" by simp
  from L [where v = v and g = ?G] v(3,4) obtain v' where
    e2: "fire 0 v = Inr v'" "map_of (playingNotes v') ''Do'' = Some False"
    by auto
  from a w'(1,2) t fw v e1 e2 show ?thesis by blast
qed

text \<open>
  Claim C6 as it is written (a note outside the five bells is a no-op) fails: playing a
  sequence with the note La sets \<^verbatim>\<open>playingNotes['La']\<close> to true and arms its flag timer
  (beside the completion timer of the player); no clip is restarted.
\<close>

theorem unknown_note_sets_flag:
  "map_sum id playingNotes (run [Upload seq_la, PressButton, Fire 0] init)
     = Inr [(''La'', True)]
   \<and> map_sum id timers (run [Upload seq_la, PressButton, Fire 0] init)
     = Inr [\<lparr>tid = 1, due = 500, cb = StopTimer\<rparr>, \<lparr>tid = 2, due = 200, cb = FlagTimer ''La''\<rparr>]
   \<and> map_sum id audioPlays (run [Upload seq_la, PressButton, Fire 0] init) = Inr []
   \<and> handleBellClick ''La'' None init \<noteq> Inr init"
  by (simp add: seq_la_def eval_defs)

text \<open>
  Claim C6, amended. For a note that is none of the five bells and not a property name
  inherited from \<^verbatim>\<open>Object.prototype\<close>, outside edit mode, \<^verbatim>\<open>handleBellClick\<close> raises no
  error, restarts no clip, leaves the flags of the five bells and the state of the player
  as they are; what it does is to set the flag entry of the unknown note and to arm its
  200 ms timer, which, when it fires, again leaves clips and the flags of the five bells
  as they are.
\<close>

theorem unknown_note_leaves_bells:
  assumes "n \<notin> set bell_notes" and "n \<notin> set object_prototype_keys" and "\<not> editMode w"
  shows "\<exists>w'. handleBellClick n e w = Inr w'
      \<and> audioPlays w' = audioPlays w
      \<and> (\<forall>b \<in> set bell_notes. map_of (playingNotes w') b = map_of (playingNotes w) b)
      \<and> playingNotes w' = AList.update n True (playingNotes w)
      \<and> timers w' = timers w @ [\<lparr>tid = next_id w, due = clock w + 200, cb = FlagTimer n\<rparr>]
      \<and> isPlaying w' = isPlaying w \<and> progress w' = progress w \<and> playerRef w' = playerRef w
      \<and> bellPlays w' = bellPlays w \<and> activeNote w' = activeNote w
      \<and> (\<forall>v g. find (\<lambda>t. tid t = tid g) (timers v) = Some g \<and> cb g = FlagTimer n
                \<and> due g \<le> clock v \<longrightarrow>
             (\<exists>v'. fire (tid g) v = Inr v' \<and> audioPlays v' = audioPlays v
                \<and> (\<forall>b \<in> set bell_notes. map_of (playingNotes v') b = map_of (playingNotes v) b)))"
proof -
  from assms(1,2) have u: "audioRefs n = Undefined" by (simp add: audioRefs_def)
  have "\<forall>v g. find (\<lambda>t. tid t = tid g) (timers v) = Some g \<and> cb g = FlagTimer n
                \<and> due g \<le> clock v \<longrightarrow>
             (\<exists>v'. fire (tid g) v = Inr v' \<and> audioPlays v' = audioPlays v
                \<and> (\<forall>b \<in> set bell_notes. map_of (playingNotes v') b = map_of (playingNotes v) b))"
    using flag_timer_clears [where n = n] assms(1) by metis
  moreover from assms(1)
  have "\<forall>b \<in> set bell_notes. map_of (AList.update n True (playingNotes w)) b = map_of (playingNotes w) b"
    by (auto simp: update_conv')
  ultimately show ?thesis
    using assms(3) u by (simp add: handleBellClick_ring)
qed

theorem unknown_note_leaves_bells_witness:
  "\<exists>w w' v v'. run [ClickBell ''Do'' False] init = Inr w
      \<and> ''La'' \<notin> set bell_notes \<and> ''La'' \<notin> set object_prototype_keys \<and> \<not> editMode w
      \<and> map_of (playingNotes w) ''Do'' = Some True \<and> audioPlays w = [''Do'']
      \<and> handleBellClick ''La'' None w = Inr w'
      \<and> audioPlays w' = audioPlays w
      \<and> (\<forall>b \<in> set bell_notes. map_of (playingNotes w') b = map_of (playingNotes w) b)
      \<and> map_of (playingNotes w') ''La'' = Some True
      \<and> run [Tick 200] w' = Inr v
      \<and> find (\<lambda>t. tid t = 1) (timers v) = Some \<lparr>tid = 1, due = 200, cb = FlagTimer ''La''\<rparr>
      \<and> 200 \<le> clock v
      \<and> fire 1 v = Inr v' \<and> audioPlays v' = audioPlays v
      \<and> (\<forall>b \<in> set bell_notes. map_of (playingNotes v') b = map_of (playingNotes v) b)"
proof -
  let ?G = "\<lparr>tid = 1, due = 200, cb = FlagTimer ''La''\<rparr>"
  have "\<exists>w. run [ClickBell ''Do'' False] init = Inr w \<and> \<not> editMode w
      \<and> map_of (playingNotes w) ''Do'' = Some True \<and> audioPlays w = [''Do'']
      \<and> timers w = [\<lparr>tid = 0, due = 200, cb = FlagTimer ''Do''\<rparr>]
      \<and> next_id w = 1 \<and> clock w = 0"
    by (simp add: eval_defs)
  then obtain w where r: "run [ClickBell ''Do'' False] init = Inr w"
    and f: "\<not> editMode w" "map_of (playingNotes w) ''Do'' = Some True" "audioPlays w = [''Do'']"
    and tw: "timers w = [\<lparr>tid = 0, due = 200, cb = FlagTimer ''Do''\<rparr>]" "next_id w = 1"
      "clock w = 0"
    by blast
  have a: "''La'' \<notin> set bell_notes" "''La'' \<notin> set object_prototype_keys"
    by (simp_all add: bell_notes_def note_Re_def object_prototype_keys_def)
  from unknown_note_leaves_bells [OF a f(1), of None]
  obtain w' where w': "handleBellClick ''La'' None w = Inr w'"
      "audioPlays w' = audioPlays w"
      "\<forall>b \<in> set bell_notes. map_of (playingNotes w') b = map_of (playingNotes w) b"
      "playingNotes w' = AList.update ''La'' True (playingNotes w)"
      "timers w' = timers w @ [\<lparr>tid = next_id w, due = clock w + 200, cb = FlagTimer ''La''\<rparr>]"
    and L: "\<And>v g. find (\<lambda>t. tid t = tid g) (timers v) = Some g \<and> cb g = FlagTimer ''La''
                \<and> due g \<le> clock v \<Longrightarrow>
             (\<exists>v'. fire (tid g) v = Inr v' \<and> audioPlays v' = audioPlays v
                \<and> (\<forall>b \<in> set bell_notes. map_of (playingNotes v') b = map_of (playingNotes v) b))"
    by blast
  let ?v = "w'\<lparr>clock := clock w' + 200\<rparr>"
  have rv: "run [Tick 200] w' = Inr ?v" by simp
  from w'(5) tw have fv: "find (\<lambda>t. tid t = 1) (timers ?v) = Some ?G" by simp
  have cv: "200 \<le> clock ?v" by simp
  from w'(4) have la: "map_of (playingNotes w') ''La'' = Some True"
    by (simp add: update_conv')
  from L [where v = ?v and g = ?G] fv cv obtain v' where
    e: "fire 1 ?v = Inr v'" "audioPlays v' = audioPlays ?v"
      "\<forall>b \<in> set bell_notes. map_of (playingNotes v') b = map_of (playingNotes ?v) b"
    by auto
  from r a f w'(1,2,3) la rv fv cv e show ?thesis by blast
qed

end
